theory Spec2Isabelle
  imports Complex_Main "HOL-Library.Sublist"
begin

section \<open>GlyphNet model definitions: embedding of \<open>glyphnet/models.py\<close>\<close>

subsection \<open>Python values that the module formats and computes with\<close>

text \<open>
  \<open>str(n)\<close> of a Python integer: decimal digits, most significant first, no leading
  zero, a minus sign in front of a negative number. The f-strings of the module call it
  on the stage index.
\<close>

definition digit :: "nat \<Rightarrow> char" where
  "digit d = ''0123456789'' ! d"

fun decimal :: "nat \<Rightarrow> string" where
  "decimal n = (if n div 10 = 0 then [digit n] else decimal (n div 10) @ [digit (n mod 10)])"

declare decimal.simps [simp del]

definition str_int :: "int \<Rightarrow> string" where
  "str_int i = (if i < 0 then CHR ''-'' # decimal (nat (- i)) else decimal (nat i))"

subsection \<open>Layer names\<close>

text \<open>
  \<open>make_name(block_name, layer_name, index=None)\<close>: the two f-strings of the source.
  The optional index is \<open>None\<close> or the stage number \<open>r + 1\<close>.
\<close>

fun make_name :: "string \<Rightarrow> string \<Rightarrow> int option \<Rightarrow> string" where
  "make_name block_name layer_name None = block_name @ ''_'' @ layer_name"
| "make_name block_name layer_name (Some index) =
     block_name @ ''_'' @ layer_name @ ''_'' @ str_int index"

text \<open>
  Characters that can occur in the rendering of an integer, and the layer names that
  cannot be mistaken for a part of another triple: no underscore inside, and at least
  one character that no rendered integer contains. The names \<open>conv\<close>, \<open>deconv\<close>,
  \<open>bn\<close> and \<open>swish\<close> that the two block constructors pass are of this kind.
\<close>

definition numeral_chars :: "char set" where
  "numeral_chars = set ''-0123456789''"

definition plain_layer_name :: "string \<Rightarrow> bool" where
  "plain_layer_name l = (CHR ''_'' \<notin> set l \<and> (\<exists>c \<in> set l. c \<notin> numeral_chars))"

subsection \<open>Adversarial loss\<close>

text \<open>
  Exceptions the module can end with: the \<open>RuntimeError\<close> that \<open>adversarial_loss\<close>
  raises with its message, the framework's error for a slice outside a tensor,
  Python's \<open>OverflowError\<close> of an integer division whose quotient is no finite float,
  and the framework's error for a layer whose weights do not fit into memory.
\<close>

datatype error = RuntimeError string | InvalidArgumentError | OverflowError
  | ResourceExhaustedError

text \<open>
  A loss function receives two tensors of rank two, one row per sample of the batch.
  Tensor elements are idealised as real numbers. \<open>tf.nn.sigmoid\<close> is applied elementwise
  and \<open>tf.nn.softmax\<close> normalises along the last axis, that is, each row by itself.
  The slice \<open>y[:, -1]\<close> takes the last element of every row and is rejected by the
  framework when the rows have no element.
\<close>

type_synonym batch = "real list list"

definition sigmoid :: "real \<Rightarrow> real" where
  "sigmoid x = 1 / (1 + exp (- x))"

definition softmax :: "real list \<Rightarrow> real list" where
  "softmax row = map (\<lambda>x. exp x / sum_list (map exp row)) row"

definition last_channel :: "batch \<Rightarrow> error + real list" where
  "last_channel y = (if [] \<in> set y then Inl InvalidArgumentError else Inr (map last y))"

text \<open>
  The two nested functions of \<open>adversarial_loss\<close> and its dispatch on the tag.
  \<open>tf.keras.losses.binary_crossentropy\<close> belongs to the framework; it is the parameter
  \<open>bce\<close>, so every statement below holds whatever it computes.
\<close>

definition one_hot_loss ::
  "(real list \<Rightarrow> real list \<Rightarrow> 'r) \<Rightarrow> batch \<Rightarrow> batch \<Rightarrow> error + 'r" where
  "one_hot_loss bce y_true y_pred =
     (let y_true = map softmax y_true;
          y_pred = map softmax y_pred
      in case last_channel y_true of
           Inl e \<Rightarrow> Inl e
         | Inr t \<Rightarrow> (case last_channel y_pred of
                       Inl e \<Rightarrow> Inl e
                     | Inr p \<Rightarrow> Inr (bce t p)))"

definition binary_loss ::
  "(real list \<Rightarrow> real list \<Rightarrow> 'r) \<Rightarrow> batch \<Rightarrow> batch \<Rightarrow> error + 'r" where
  "binary_loss bce y_true y_pred =
     (case last_channel y_true of
        Inl e \<Rightarrow> Inl e
      | Inr t \<Rightarrow> (case last_channel y_pred of
                    Inl e \<Rightarrow> Inl e
                  | Inr p \<Rightarrow> Inr (bce (map sigmoid t) (map (\<lambda>s. 1 - s) (map sigmoid p)))))"

definition adversarial_loss ::
  "(real list \<Rightarrow> real list \<Rightarrow> 'r) \<Rightarrow> string \<Rightarrow> error + (batch \<Rightarrow> batch \<Rightarrow> error + 'r)" where
  "adversarial_loss bce encoding =
     (if encoding = ''one-hot'' then Inr (one_hot_loss bce)
      else if encoding = ''binary'' then Inr (binary_loss bce)
      else Inl (RuntimeError (''Encoding '' @ [CHR 0x27] @ encoding @ [CHR 0x27] @ '' not understood'')))"

subsection \<open>Python numbers: true division and truncation\<close>

text \<open>
  \<open>filters /= 2\<close> is Python's true division. On an \<open>int\<close> it yields the binary64
  float nearest to the exact quotient (ties to the even significand) and raises
  \<open>OverflowError\<close> when that float would not be finite. A float is represented by the
  rational number it denotes. \<open>round53\<close> rounds a natural number to 53 significant
  bits; halving only changes the exponent.
\<close>

fun bit_length :: "nat \<Rightarrow> nat" where
  "bit_length n = (if n = 0 then 0 else Suc (bit_length (n div 2)))"

declare bit_length.simps [simp del]

definition round53 :: "nat \<Rightarrow> nat" where
  "round53 n =
     (let b = bit_length n
      in if b \<le> 53 then n
         else let u = 2 ^ (b - 53);
                  hi = n div u;
                  lo = n mod u;
                  half = u div 2
              in (if half < lo \<or> (lo = half \<and> odd hi) then hi + 1 else hi) * u)"

definition int_truediv2 :: "int \<Rightarrow> error + rat" where
  "int_truediv2 a =
     (let r = round53 (nat \<bar>a\<bar>)
      in if 1025 < bit_length r then Inl OverflowError
         else Inr (of_int (sgn a) * of_nat r / 2))"

text \<open>
  On a float, \<open>filters /= 2\<close> is exact as long as the quotient is a normal number. The
  generator starts from \<open>last_channels * 2 ** R\<close> and halves \<open>R + 1\<close> times, so the
  magnitudes it reaches stay at or above one half (or are zero).
\<close>

definition float_truediv2 :: "rat \<Rightarrow> rat" where
  "float_truediv2 x = x / 2"

text \<open>\<open>int(x)\<close> of a float truncates towards zero.\<close>

definition py_int :: "rat \<Rightarrow> int" where
  "py_int x = (if 0 \<le> x then \<lfloor>x\<rfloor> else \<lceil>x\<rceil>)"

subsection \<open>Layer graphs\<close>

text \<open>
  A symbolic tensor of the framework is the layer that produced it together with the
  tensors that layer was called on. A convolution carries its filter count, kernel
  size, stride and name, in the order of the source's positional arguments, and is
  always built with \<open>padding='same'\<close>; \<open>Dense\<close> carries its unit count and its
  optional activation; \<open>Add\<close> carries the two tensors of the list it is called on.
  Shapes exclude the batch axis. The source's variable \<open>input_\<close> is written
  \<open>input0\<close>, and the flag \<open>sigmoid\<close> of \<open>conv_block\<close> is written \<open>use_sigmoid\<close>.
\<close>

datatype activation = Swish | Sigmoid

datatype ktensor =
    Input "int list"
  | Reshape "int list" ktensor
  | Conv2D int int int string ktensor
  | Conv2DTranspose int "int \<times> int" "int \<times> int" string ktensor
  | BatchNormalization string ktensor
  | Activation activation string ktensor
  | Add string ktensor ktensor
  | GlobalAveragePooling2D string ktensor
  | Dense int "activation option" string ktensor

datatype model = Model (inputs: "ktensor list") (outputs: "ktensor list")

definition conv_block ::
  "ktensor \<Rightarrow> int \<Rightarrow> string \<Rightarrow> int option \<Rightarrow> bool \<Rightarrow> bool \<Rightarrow> bool \<Rightarrow> ktensor" where
  "conv_block x filters block_name index pooling one_by_one use_sigmoid =
     (let kernel = (if one_by_one then 1 else 3);
          stride = (if pooling then 2 else 1);
          activation = (if \<not> use_sigmoid then Swish else Sigmoid);
          x = Conv2D filters kernel stride (make_name block_name ''conv'' index) x;
          x = BatchNormalization (make_name block_name ''bn'' index) x;
          x = Activation activation (make_name block_name ''swish'' index) x
      in x)"

definition deconv_block :: "ktensor \<Rightarrow> int \<Rightarrow> string \<Rightarrow> int \<Rightarrow> ktensor" where
  "deconv_block x filters block_name index =
     (let x = Conv2DTranspose filters (3, 3) (2, 2) (make_name block_name ''deconv'' (Some index)) x;
          x = BatchNormalization (make_name block_name ''bn'' (Some index)) x;
          x = Activation Swish (make_name block_name ''swish'' (Some index)) x
      in x)"

text \<open>
  The body of the generator's loop, for stage \<open>r\<close> of \<open>range(R)\<close>, on the loop
  variables \<open>x\<close> and \<open>filters\<close>; then the generator. \<open>R\<close> counts stages and is a
  natural number.
\<close>

definition generator_stage :: "nat \<Rightarrow> ktensor \<times> rat \<Rightarrow> ktensor \<times> rat" where
  "generator_stage r s =
     (let x = fst s;
          filters = snd s;
          pre = deconv_block x (py_int filters) ''deconv_block'' (int r + 1);
          x = conv_block pre (py_int filters) ''conv_1by1'' (Some (int r + 1)) False True False;
          x = Add (''add_'' @ str_int (int r + 1)) pre x;
          filters = float_truediv2 filters
      in (x, filters))"

definition generator :: "int \<Rightarrow> nat \<Rightarrow> int \<Rightarrow> int \<Rightarrow> error + model" where
  "generator vector_dim R last_channels c =
     (let input0 = Input [vector_dim];
          x = Reshape [1, 1, vector_dim] input0;
          filters = last_channels * 2 ^ R;
          x = conv_block x filters ''stem'' None False True False
      in case int_truediv2 filters of
           Inl e \<Rightarrow> Inl e
         | Inr filters \<Rightarrow>
             (let s = fold generator_stage [0..<R] (x, filters);
                  x = conv_block (fst s) c ''prediction_conv'' None False False True
              in Inr (Model [input0] [x])))"

text \<open>
  The body of the discriminator's loop and the discriminator. Its \<open>filters\<close> stays an
  \<open>int\<close>, on which \<open>int(filters)\<close> is the identity.
\<close>

definition discriminator_stage :: "nat \<Rightarrow> ktensor \<times> int \<Rightarrow> ktensor \<times> int" where
  "discriminator_stage r s =
     (let x = fst s;
          filters = snd s;
          pre = conv_block x filters ''conv_block'' (Some (int r + 1)) True False False;
          x = conv_block pre filters ''conv_1by1'' (Some (int r + 1)) False True False;
          x = Add (''add_'' @ str_int (int r + 1)) pre x;
          filters = filters * 2
      in (x, filters))"

definition discriminator :: "int \<Rightarrow> nat \<Rightarrow> int \<Rightarrow> int \<Rightarrow> model" where
  "discriminator vector_dim R first_channels c =
     (let input_dim = 2 ^ R;
          input0 = Input [input_dim, input_dim, c];
          x = input0;
          filters = first_channels * 2;
          x = conv_block x filters ''stem'' None False False False;
          s = fold discriminator_stage [0..<R] (x, filters);
          x = GlobalAveragePooling2D ''prediction_GAP'' (fst s);
          x = Dense (vector_dim + 1) None ''prediction'' x
      in Model [input0] [x])"

subsection \<open>Reading a graph\<close>

text \<open>
  The filter count and the input of the block that produced a tensor (activation on
  normalisation on convolution), the residual stages along the main path of a graph
  (the first operand of each \<open>Add\<close>, from the input to the output) with the filter
  counts of the main block and of the projection block, and the filter counts of the
  convolutions on the main path.
\<close>

fun block_filters :: "ktensor \<Rightarrow> int option" where
  "block_filters (Activation a n (BatchNormalization n' (Conv2D filters k s n'' x))) = Some filters"
| "block_filters (Activation a n (BatchNormalization n' (Conv2DTranspose filters k s n'' x))) = Some filters"
| "block_filters _ = None"

fun block_input :: "ktensor \<Rightarrow> ktensor option" where
  "block_input (Activation a n (BatchNormalization n' (Conv2D filters k s n'' x))) = Some x"
| "block_input (Activation a n (BatchNormalization n' (Conv2DTranspose filters k s n'' x))) = Some x"
| "block_input _ = None"

fun block_stride :: "ktensor \<Rightarrow> int option" where
  "block_stride (Activation a n (BatchNormalization n' (Conv2D filters k s n'' x))) = Some s"
| "block_stride _ = None"

fun block_kernel :: "ktensor \<Rightarrow> int option" where
  "block_kernel (Activation a n (BatchNormalization n' (Conv2D filters k s n'' x))) = Some k"
| "block_kernel _ = None"

fun residual_stages :: "ktensor \<Rightarrow> (ktensor \<times> ktensor) list" where
  "residual_stages (Input shape) = []"
| "residual_stages (Reshape target x) = residual_stages x"
| "residual_stages (Conv2D filters k s n x) = residual_stages x"
| "residual_stages (Conv2DTranspose filters k s n x) = residual_stages x"
| "residual_stages (BatchNormalization n x) = residual_stages x"
| "residual_stages (Activation a n x) = residual_stages x"
| "residual_stages (Add n p q) = residual_stages p @ [(p, q)]"
| "residual_stages (GlobalAveragePooling2D n x) = residual_stages x"
| "residual_stages (Dense units a n x) = residual_stages x"

text \<open>
  A residual stage whose projection block (kernel one) is applied to the output of its
  main block, the main block being of stride two.
\<close>

definition projects_block_output :: "ktensor \<times> ktensor \<Rightarrow> bool" where
  "projects_block_output st =
     (block_stride (fst st) = Some 2 \<and> block_kernel (snd st) = Some 1
      \<and> block_input (snd st) = Some (fst st))"

definition stage_filters :: "ktensor \<Rightarrow> (int option \<times> int option) list" where
  "stage_filters g = map (\<lambda>(p, q). (block_filters p, block_filters q)) (residual_stages g)"

fun main_path_filters :: "ktensor \<Rightarrow> int list" where
  "main_path_filters (Input shape) = []"
| "main_path_filters (Reshape target x) = main_path_filters x"
| "main_path_filters (Conv2D filters k s n x) = main_path_filters x @ [filters]"
| "main_path_filters (Conv2DTranspose filters k s n x) = main_path_filters x @ [filters]"
| "main_path_filters (BatchNormalization n x) = main_path_filters x"
| "main_path_filters (Activation a n x) = main_path_filters x"
| "main_path_filters (Add n p q) = main_path_filters p"
| "main_path_filters (GlobalAveragePooling2D n x) = main_path_filters x"
| "main_path_filters (Dense units a n x) = main_path_filters x"

text \<open>
  The input tensors that a tensor is computed from: the leaves of its graph.
\<close>

fun leaves :: "ktensor \<Rightarrow> ktensor set" where
  "leaves (Input shape) = {Input shape}"
| "leaves (Reshape target x) = leaves x"
| "leaves (Conv2D filters k s n x) = leaves x"
| "leaves (Conv2DTranspose filters k s n x) = leaves x"
| "leaves (BatchNormalization n x) = leaves x"
| "leaves (Activation a n x) = leaves x"
| "leaves (Add n p q) = leaves p \<union> leaves q"
| "leaves (GlobalAveragePooling2D n x) = leaves x"
| "leaves (Dense units a n x) = leaves x"

subsection \<open>Shapes and values\<close>

text \<open>
  The framework's shape rules. With \<open>padding='same'\<close> a convolution of stride \<open>s\<close>
  maps a side \<open>n\<close> to \<open>\<lceil>n / s\<rceil>\<close> and a transposed convolution maps it to \<open>n * s\<close>;
  the channel axis becomes the filter count. \<open>Add\<close> needs operands of one shape,
  \<open>Reshape\<close> keeps the number of elements, global average pooling keeps the channel
  axis only, \<open>Dense\<close> replaces the last axis. \<open>None\<close> is a failed construction.
\<close>

definition ceil_div :: "int \<Rightarrow> int \<Rightarrow> int" where
  "ceil_div a b = - ((- a) div b)"

fun shape_of :: "ktensor \<Rightarrow> int list option" where
  "shape_of (Input shape) = Some shape"
| "shape_of (Reshape target x) =
     (case shape_of x of
        None \<Rightarrow> None
      | Some s \<Rightarrow> if prod_list s = prod_list target then Some target else None)"
| "shape_of (Conv2D filters k s n x) =
     (case shape_of x of
        Some [h, w, ch] \<Rightarrow> Some [ceil_div h s, ceil_div w s, filters]
      | _ \<Rightarrow> None)"
| "shape_of (Conv2DTranspose filters k s n x) =
     (case shape_of x of
        Some [h, w, ch] \<Rightarrow> Some [h * fst s, w * snd s, filters]
      | _ \<Rightarrow> None)"
| "shape_of (BatchNormalization n x) = shape_of x"
| "shape_of (Activation a n x) = shape_of x"
| "shape_of (Add n p q) =
     (case (shape_of p, shape_of q) of
        (Some s, Some t) \<Rightarrow> if s = t then Some s else None
      | _ \<Rightarrow> None)"
| "shape_of (GlobalAveragePooling2D n x) =
     (case shape_of x of
        Some [h, w, ch] \<Rightarrow> Some [ch]
      | _ \<Rightarrow> None)"
| "shape_of (Dense units a n x) =
     (case shape_of x of
        None \<Rightarrow> None
      | Some s \<Rightarrow> if s = [] then None else Some (butlast s @ [units]))"

text \<open>
  The value of a tensor for a given input value. What the trained layers compute
  depends on weights that the module does not fix: it is the parameter \<open>F\<close>, a function
  for every kind of layer. An \<open>Activation\<close> layer applies its function to every
  element, \<open>swish\<close> of the module or the framework's sigmoid, and \<open>Add\<close> sums
  elementwise. Values are flattened and idealised as real numbers.
\<close>

definition swish :: "real \<Rightarrow> real" where
  "swish x = sigmoid x * x"

fun activation_fn :: "activation \<Rightarrow> real \<Rightarrow> real" where
  "activation_fn Swish = swish"
| "activation_fn Sigmoid = sigmoid"

record framework =
  conv2d :: "int \<Rightarrow> int \<Rightarrow> int \<Rightarrow> string \<Rightarrow> real list \<Rightarrow> real list"
  conv2d_transpose :: "int \<Rightarrow> int \<times> int \<Rightarrow> int \<times> int \<Rightarrow> string \<Rightarrow> real list \<Rightarrow> real list"
  batch_normalization :: "string \<Rightarrow> real list \<Rightarrow> real list"
  global_average_pooling2d :: "string \<Rightarrow> real list \<Rightarrow> real list"
  dense :: "int \<Rightarrow> string \<Rightarrow> real list \<Rightarrow> real list"

fun run :: "framework \<Rightarrow> real list \<Rightarrow> ktensor \<Rightarrow> real list" where
  "run F v (Input shape) = v"
| "run F v (Reshape target x) = run F v x"
| "run F v (Conv2D filters k s n x) = conv2d F filters k s n (run F v x)"
| "run F v (Conv2DTranspose filters k s n x) = conv2d_transpose F filters k s n (run F v x)"
| "run F v (BatchNormalization n x) = batch_normalization F n (run F v x)"
| "run F v (Activation a n x) = map (activation_fn a) (run F v x)"
| "run F v (Add n p q) = map2 (+) (run F v p) (run F v q)"
| "run F v (GlobalAveragePooling2D n x) = global_average_pooling2d F n (run F v x)"
| "run F v (Dense units a n x) =
     (case a of
        None \<Rightarrow> dense F units n (run F v x)
      | Some f \<Rightarrow> map (activation_fn f) (dense F units n (run F v x)))"

subsection \<open>Configurations\<close>

text \<open>
  A configuration is valid when the vector dimension, the base channel count and the
  image channel count are positive and the stem filter count
  \<open>channels * 2 ** R\<close> is within the range of finite floats, so that the generator's
  \<open>filters /= 2\<close> does not raise.
\<close>

definition valid_config :: "int \<Rightarrow> nat \<Rightarrow> int \<Rightarrow> int \<Rightarrow> bool" where
  "valid_config vector_dim R channels c =
     (1 \<le> vector_dim \<and> 1 \<le> channels \<and> 1 \<le> c \<and> channels * 2 ^ R < 2 ^ 1024)"



section \<open>Properties\<close>

subsection \<open>Decimal rendering\<close>

lemma digit_inj: "a < 10 \<Longrightarrow> b < 10 \<Longrightarrow> digit a = digit b \<Longrightarrow> a = b"
proof -
  assume a: "a < 10" and b: "b < 10" and e: "digit a = digit b"
  have d: "distinct ''0123456789''" by simp
  have "a < length ''0123456789''" "b < length ''0123456789''" using a b by simp_all
  with d e show "a = b" unfolding digit_def by (simp only: nth_eq_iff_index_eq)
qed

lemma digit_mem: "d < 10 \<Longrightarrow> digit d \<in> set ''0123456789''"
  unfolding digit_def by (rule nth_mem) simp

lemma digit_in_numeral_chars: "d < 10 \<Longrightarrow> digit d \<in> numeral_chars"
  using digit_mem [of d] by (auto simp: numeral_chars_def)

lemma digit_not_minus: "d < 10 \<Longrightarrow> digit d \<noteq> CHR ''-''"
  using digit_mem [of d] by auto

lemma decimal_nonempty: "decimal n \<noteq> []"
  by (subst decimal.simps) simp

lemma decimal_chars: "set (decimal n) \<subseteq> numeral_chars - {CHR ''-''}"
proof (induction n rule: decimal.induct)
  case (1 n)
  note nodash = digit_not_minus
  show ?case
  proof (cases "n div 10 = 0")
    case True
    then have "n < 10" by simp
    then show ?thesis
      using True nodash [of n] digit_in_numeral_chars [of n]
      by (subst decimal.simps) simp
  next
    case False
    have "n mod 10 < 10" by simp
    then show ?thesis
      using False 1 nodash [of "n mod 10"] digit_in_numeral_chars [of "n mod 10"]
      by (subst decimal.simps) auto
  qed
qed

lemma decimal_inj: "decimal n = decimal m \<Longrightarrow> n = m"
proof (induction n arbitrary: m rule: decimal.induct)
  case (1 n)
  show ?case
  proof (cases "n div 10 = 0")
    case n0: True
    show ?thesis
    proof (cases "m div 10 = 0")
      case True
      with n0 "1.prems" have "digit n = digit m"
        by (simp add: decimal.simps [of n] decimal.simps [of m])
      moreover have "n < 10" "m < 10" using n0 True by simp_all
      ultimately show ?thesis by (simp add: digit_inj)
    next
      case False
      with n0 "1.prems" have "[digit n] = decimal (m div 10) @ [digit (m mod 10)]"
        by (simp add: decimal.simps [of n] decimal.simps [of m])
      then have "decimal (m div 10) = []" by simp
      then show ?thesis using decimal_nonempty by blast
    qed
  next
    case n1: False
    show ?thesis
    proof (cases "m div 10 = 0")
      case True
      with n1 "1.prems" have "decimal (n div 10) @ [digit (n mod 10)] = [digit m]"
        by (simp add: decimal.simps [of n] decimal.simps [of m])
      then have "decimal (n div 10) = []" by simp
      then show ?thesis using decimal_nonempty by blast
    next
      case False
      with n1 "1.prems"
      have "decimal (n div 10) @ [digit (n mod 10)] = decimal (m div 10) @ [digit (m mod 10)]"
        by (simp add: decimal.simps [of n] decimal.simps [of m])
      then have e: "decimal (n div 10) = decimal (m div 10)" "digit (n mod 10) = digit (m mod 10)"
        by simp_all
      from "1.IH" [OF n1 e(1)] have d: "n div 10 = m div 10" .
      have "n mod 10 = m mod 10"
        by (rule digit_inj [OF _ _ e(2)]) simp_all
      with d show ?thesis
        by (metis div_mult_mod_eq)
    qed
  qed
qed

lemma str_int_inj: "str_int i = str_int j \<Longrightarrow> i = j"
proof -
  assume e: "str_int i = str_int j"
  have nd: "hd (decimal k) \<noteq> CHR ''-''" for k
    using decimal_chars [of k] decimal_nonempty [of k]
    by (cases "decimal k") auto
  show "i = j"
  proof (cases "i < 0"; cases "j < 0")
    assume "i < 0" "j < 0"
    with e have "decimal (nat (- i)) = decimal (nat (- j))" by (simp add: str_int_def)
    then have "nat (- i) = nat (- j)" by (rule decimal_inj)
    with \<open>i < 0\<close> \<open>j < 0\<close> show ?thesis by simp
  next
    assume "i < 0" "\<not> j < 0"
    with e have "CHR ''-'' # decimal (nat (- i)) = decimal (nat j)" by (simp add: str_int_def)
    then have "hd (decimal (nat j)) = CHR ''-''" by (metis list.sel(1))
    with nd show ?thesis by blast
  next
    assume "\<not> i < 0" "j < 0"
    with e have "decimal (nat i) = CHR ''-'' # decimal (nat (- j))" by (simp add: str_int_def)
    then have "hd (decimal (nat i)) = CHR ''-''" by (metis list.sel(1))
    with nd show ?thesis by blast
  next
    assume "\<not> i < 0" "\<not> j < 0"
    with e have "decimal (nat i) = decimal (nat j)" by (simp add: str_int_def)
    then have "nat i = nat j" by (rule decimal_inj)
    with \<open>\<not> i < 0\<close> \<open>\<not> j < 0\<close> show ?thesis by simp
  qed
qed

lemma str_int_chars: "set (str_int i) \<subseteq> numeral_chars"
proof -
  have "CHR ''-'' \<in> numeral_chars" by (simp add: numeral_chars_def)
  then show ?thesis
    using decimal_chars [of "nat (- i)"] decimal_chars [of "nat i"]
    by (auto simp: str_int_def)
qed

lemma str_int_no_underscore: "CHR ''_'' \<notin> set (str_int i)"
proof -
  have "CHR ''_'' \<notin> numeral_chars" by (simp add: numeral_chars_def)
  then show ?thesis using str_int_chars [of i] by blast
qed

subsection \<open>Layer names are told apart\<close>

lemma split_first:
  "x \<notin> set p \<Longrightarrow> x \<notin> set q \<Longrightarrow> p @ x # a = q @ x # b \<Longrightarrow> p = q \<and> a = b"
proof (induction p arbitrary: q)
  case Nil
  then show ?case by (cases q) auto
next
  case (Cons y p)
  then show ?case by (cases q) auto
qed

lemma split_last_underscore:
  assumes "CHR ''_'' \<notin> set s" "CHR ''_'' \<notin> set t" "a @ CHR ''_'' # s = b @ CHR ''_'' # t"
  shows "a = b \<and> s = t"
proof -
  from assms(3) have "rev (a @ CHR ''_'' # s) = rev (b @ CHR ''_'' # t)"
    by (rule arg_cong)
  then have e: "rev s @ CHR ''_'' # rev a = rev t @ CHR ''_'' # rev b"
    by (simp only: rev_append rev.simps append_assoc append.simps)
  have n: "CHR ''_'' \<notin> set (rev s)" "CHR ''_'' \<notin> set (rev t)"
    using assms(1,2) by simp_all
  from split_first [OF n e] show ?thesis by simp
qed

text \<open>
  Claim C9. With the block name and the layer name fixed, two different index values
  give two different layer names; the index may be absent on one side and a stage
  number on the other. Repeated blocks of one model are therefore told apart by their
  index alone.
\<close>

theorem make_name_index_distinct:
  "i \<noteq> j \<Longrightarrow> make_name block_name layer_name i \<noteq> make_name block_name layer_name j"
proof (cases i; cases j)
  fix a b
  assume "i \<noteq> j" "i = Some a" "j = Some b"
  then show ?thesis using str_int_inj [of a b] by auto
qed simp_all

theorem make_name_index_distinct_witness:
  "Some 1 \<noteq> Some (2::int) \<and> (None :: int option) \<noteq> Some 1
   \<and> make_name ''conv_block'' ''bn'' (Some 1) \<noteq> make_name ''conv_block'' ''bn'' (Some 2)
   \<and> make_name ''stem'' ''conv'' None \<noteq> make_name ''stem'' ''conv'' (Some 1)"
  using make_name_index_distinct [of "Some 1" "Some 2" "''conv_block''" "''bn''"]
    make_name_index_distinct [of None "Some 1" "''stem''" "''conv''"]
  by simp

text \<open>
  Claim C4, as stated: any two distinct triples give distinct names. It fails, because
  the underscore that separates the parts may also occur inside a part: the block
  \<open>conv_block\<close> with layer \<open>bn\<close> and the block \<open>conv\<close> with layer \<open>block_bn\<close>
  are both named \<open>conv_block_bn\<close>.
\<close>

theorem make_name_collision:
  "make_name ''conv_block'' ''bn'' None = make_name ''conv'' ''block_bn'' None
   \<and> (''conv_block'', ''bn'', None :: int option) \<noteq> (''conv'', ''block_bn'', None)"
  by simp

text \<open>
  Claim C4, amended: on triples whose layer name has no underscore and has a character
  that is neither a digit nor a minus sign (as \<open>conv\<close>, \<open>deconv\<close>, \<open>bn\<close>, \<open>swish\<close>
  have), equal names come from equal triples. The block name is arbitrary.
\<close>

theorem make_name_inj_plain:
  assumes "plain_layer_name l1" and "plain_layer_name l2"
    and "make_name b1 l1 i1 = make_name b2 l2 i2"
  shows "b1 = b2 \<and> l1 = l2 \<and> i1 = i2"
proof -
  have u1: "CHR ''_'' \<notin> set l1" and u2: "CHR ''_'' \<notin> set l2"
    using assms(1,2) by (simp_all add: plain_layer_name_def)
  have notnum: "l \<noteq> str_int k" if "plain_layer_name l" for l k
    using that str_int_chars [of k] by (auto simp: plain_layer_name_def)
  show ?thesis
  proof (cases i1; cases i2)
    assume "i1 = None" "i2 = None"
    with assms(3) have "b1 @ CHR ''_'' # l1 = b2 @ CHR ''_'' # l2" by simp
    from split_last_underscore [OF u1 u2 this] show ?thesis
      using \<open>i1 = None\<close> \<open>i2 = None\<close> by simp
  next
    fix k assume "i1 = None" "i2 = Some k"
    with assms(3) have "b1 @ CHR ''_'' # l1 = (b2 @ CHR ''_'' # l2) @ CHR ''_'' # str_int k"
      by simp
    from split_last_underscore [OF u1 str_int_no_underscore this]
    show ?thesis using notnum [OF assms(1)] by blast
  next
    fix k assume "i1 = Some k" "i2 = None"
    with assms(3) have "(b1 @ CHR ''_'' # l1) @ CHR ''_'' # str_int k = b2 @ CHR ''_'' # l2"
      by simp
    from split_last_underscore [OF str_int_no_underscore u2 this]
    show ?thesis using notnum [OF assms(2)] by metis
  next
    fix k m assume i: "i1 = Some k" "i2 = Some m"
    with assms(3)
    have "(b1 @ CHR ''_'' # l1) @ CHR ''_'' # str_int k = (b2 @ CHR ''_'' # l2) @ CHR ''_'' # str_int m"
      by simp
    from split_last_underscore [OF str_int_no_underscore str_int_no_underscore this]
    have e: "b1 @ CHR ''_'' # l1 = b2 @ CHR ''_'' # l2" and s: "str_int k = str_int m"
      by simp_all
    from split_last_underscore [OF u1 u2 e] str_int_inj [OF s] i
    show ?thesis by simp
  qed
qed

theorem make_name_inj_plain_witness:
  "plain_layer_name ''conv'' \<and> plain_layer_name ''deconv''
   \<and> make_name ''stem'' ''conv'' None = make_name ''stem'' ''conv'' None
   \<and> make_name ''conv_block'' ''conv'' (Some 1) \<noteq> make_name ''deconv_block'' ''deconv'' None"
  using make_name_inj_plain [of "''conv''" "''conv''" "''stem''" None "''stem''" None]
    make_name_inj_plain [of "''conv''" "''deconv''" "''conv_block''" "Some 1" "''deconv_block''" None]
  by (auto simp: plain_layer_name_def numeral_chars_def)

subsection \<open>The loss selector\<close>

text \<open>
  Claim C3. For the tags \<open>one-hot\<close> and \<open>binary\<close> the selector returns a loss
  function. For every other string it returns no function: it raises a
  \<open>RuntimeError\<close> whose message contains the tag that was passed.
\<close>

theorem adversarial_loss_selector:
  "(encoding = ''one-hot'' \<or> encoding = ''binary''
      \<longrightarrow> (\<exists>f. adversarial_loss bce encoding = Inr f))
   \<and> (encoding \<noteq> ''one-hot'' \<and> encoding \<noteq> ''binary''
      \<longrightarrow> (\<exists>msg. adversarial_loss bce encoding = Inl (RuntimeError msg) \<and> sublist encoding msg))"
proof -
  have s: "sublist encoding (''Encoding '' @ [CHR 0x27] @ encoding @ [CHR 0x27] @ '' not understood'')"
    by (rule sublist_appendI [of encoding "''Encoding '' @ [CHR 0x27]" "[CHR 0x27] @ '' not understood''", simplified append_assoc])
  show ?thesis
  proof (intro conjI impI)
    assume "encoding = ''one-hot'' \<or> encoding = ''binary''"
    then show "\<exists>f. adversarial_loss bce encoding = Inr f"
      unfolding adversarial_loss_def by (elim disjE) simp_all
  next
    assume "encoding \<noteq> ''one-hot'' \<and> encoding \<noteq> ''binary''"
    then have "adversarial_loss bce encoding =
      Inl (RuntimeError (''Encoding '' @ [CHR 0x27] @ encoding @ [CHR 0x27] @ '' not understood''))"
      unfolding adversarial_loss_def by simp
    with s show "\<exists>msg. adversarial_loss bce encoding = Inl (RuntimeError msg) \<and> sublist encoding msg"
      by blast
  qed
qed


theorem adversarial_loss_selector_witness:
  "(\<exists>f. adversarial_loss (\<lambda>t p. (t, p)) ''one-hot'' = Inr f)
   \<and> (\<exists>f. adversarial_loss (\<lambda>t p. (t, p)) ''binary'' = Inr f)
   \<and> ''xyz'' \<noteq> ''one-hot'' \<and> ''xyz'' \<noteq> ''binary''
   \<and> (\<exists>msg. adversarial_loss (\<lambda>t p. (t, p)) ''xyz'' = Inl (RuntimeError msg) \<and> sublist ''xyz'' msg)"
proof -
  have x: "''xyz'' \<noteq> ''one-hot'' \<and> ''xyz'' \<noteq> ''binary''" by simp
  from adversarial_loss_selector [of "''one-hot''" "\<lambda>t p. (t, p)"]
  have a: "\<exists>f. adversarial_loss (\<lambda>t p. (t, p)) ''one-hot'' = Inr f" by blast
  from adversarial_loss_selector [of "''binary''" "\<lambda>t p. (t, p)"]
  have b: "\<exists>f. adversarial_loss (\<lambda>t p. (t, p)) ''binary'' = Inr f" by blast
  from adversarial_loss_selector [of "''xyz''" "\<lambda>t p. (t, p)"] x
  have c: "\<exists>msg. adversarial_loss (\<lambda>t p. (t, p)) ''xyz'' = Inl (RuntimeError msg) \<and> sublist ''xyz'' msg"
    by blast
  from a b c x show ?thesis by blast
qed

lemma message_xyz:
  "adversarial_loss bce ''xyz'' = Inl (RuntimeError ''Encoding 'xyz' not understood'')"
  by (simp add: adversarial_loss_def)


lemma last_channel_ok: "[] \<notin> set y \<Longrightarrow> last_channel y = Inr (map last y)"
  by (simp add: last_channel_def)

lemma binary_loss_eq:
  assumes "[] \<notin> set y_true" and "[] \<notin> set y_pred"
  shows "binary_loss bce y_true y_pred =
        Inr (bce (map (\<lambda>row. sigmoid (last row)) y_true)
                 (map (\<lambda>row. 1 - sigmoid (last row)) y_pred))"
  unfolding binary_loss_def
  by (simp add: last_channel_ok [OF assms(1)] last_channel_ok [OF assms(2)] comp_def)

text \<open>
  Claim C7. The function returned for \<open>binary\<close> is the cross-entropy between the
  sigmoid of the last channel of \<open>y_true\<close> and one minus the sigmoid of the last
  channel of \<open>y_pred\<close>, for all batches whose rows have a last channel.
\<close>

theorem binary_loss_selected:
  assumes "[] \<notin> set y_true" and "[] \<notin> set y_pred"
  shows "\<exists>f. adversarial_loss bce ''binary'' = Inr f
    \<and> f y_true y_pred =
        Inr (bce (map (\<lambda>row. sigmoid (last row)) y_true)
                 (map (\<lambda>row. 1 - sigmoid (last row)) y_pred))"
proof -
  have "adversarial_loss bce ''binary'' = Inr (binary_loss bce)"
    by (simp add: adversarial_loss_def)
  with binary_loss_eq [OF assms] show ?thesis by blast
qed

theorem binary_loss_selected_witness:
  "[] \<notin> set [[0, 1 :: real]] \<and> [] \<notin> set [[2, 3 :: real]]
   \<and> (\<exists>f. adversarial_loss (\<lambda>t p. (t, p)) ''binary'' = Inr f
        \<and> f [[0, 1]] [[2, 3]] = Inr ([sigmoid 1], [1 - sigmoid 3]))"
  using binary_loss_selected [of "[[0, 1]]" "[[2, 3]]" "\<lambda>t p. (t, p)"]
  by simp


lemma last_softmax:
  "row \<noteq> [] \<Longrightarrow> last (softmax row) = exp (last row) / sum_list (map exp row)"
  by (simp add: softmax_def last_map)

lemma softmax_rows_nonempty: "[] \<notin> set y \<Longrightarrow> [] \<notin> set (map softmax y)"
  by (induction y) (auto simp: softmax_def)

lemma one_hot_loss_eq:
  assumes "[] \<notin> set y_true" and "[] \<notin> set y_pred"
  shows "one_hot_loss bce y_true y_pred =
        Inr (bce (map (\<lambda>row. last (softmax row)) y_true)
                 (map (\<lambda>row. last (softmax row)) y_pred))"
  unfolding one_hot_loss_def Let_def
  by (simp only: last_channel_ok [OF softmax_rows_nonempty [OF assms(1)]]
        last_channel_ok [OF softmax_rows_nonempty [OF assms(2)]]
        sum.case map_map comp_def)

text \<open>
  Claim C8. The function returned for \<open>one-hot\<close> is the cross-entropy between the
  last channels of the softmax of \<open>y_true\<close> and of the softmax of \<open>y_pred\<close>. The
  softmax is taken over the whole row first: the last channel that is compared is the
  exponential of the last element divided by the sum of the exponentials of all
  elements of the row.
\<close>

theorem one_hot_loss_selected:
  assumes "[] \<notin> set y_true" and "[] \<notin> set y_pred"
  shows "\<exists>f. adversarial_loss bce ''one-hot'' = Inr f
    \<and> f y_true y_pred =
        Inr (bce (map (\<lambda>row. last (softmax row)) y_true)
                 (map (\<lambda>row. last (softmax row)) y_pred))
    \<and> (\<forall>row \<in> set y_true \<union> set y_pred.
          last (softmax row) = exp (last row) / sum_list (map exp row))"
proof -
  have sel: "adversarial_loss bce ''one-hot'' = Inr (one_hot_loss bce)"
    by (simp add: adversarial_loss_def)
  have full: "\<forall>row \<in> set y_true \<union> set y_pred.
          last (softmax row) = exp (last row) / sum_list (map exp row)"
  proof
    fix row assume "row \<in> set y_true \<union> set y_pred"
    with assms have "row \<noteq> []" by blast
    then show "last (softmax row) = exp (last row) / sum_list (map exp row)"
      by (rule last_softmax)
  qed
  from sel one_hot_loss_eq [OF assms] full show ?thesis by blast
qed

theorem one_hot_loss_selected_witness:
  "[] \<notin> set [[0, 0 :: real]] \<and> [] \<notin> set [[0, 0 :: real]]
   \<and> (\<exists>f. adversarial_loss (\<lambda>t p. (t, p)) ''one-hot'' = Inr f
        \<and> f [[0, 0]] [[0, 0]] = Inr ([1 / 2], [1 / 2]))"
  using one_hot_loss_selected [of "[[0, 0]]" "[[0, 0]]" "\<lambda>t p. (t, p)"]
  by (simp add: softmax_def)

subsection \<open>Blocks and the discriminator\<close>

lemma fold_upt_Suc: "fold f [0..<Suc j] s = f j (fold f [0..<j] s)"
  by simp

lemma ceil_div_one: "ceil_div a 1 = a"
  by (simp add: ceil_div_def)

lemma ceil_div_pow2: "ceil_div (2 ^ Suc k) 2 = 2 ^ k"
  by (simp add: ceil_div_def)

lemma shape_of_conv_block:
  "shape_of x = Some [h, w, ch] \<Longrightarrow>
   shape_of (conv_block x filters block_name index pooling one_by_one use_sigmoid) =
     Some [ceil_div h (if pooling then 2 else 1), ceil_div w (if pooling then 2 else 1), filters]"
  by (simp add: conv_block_def)

lemma residual_stages_conv_block:
  "residual_stages (conv_block x filters block_name index pooling one_by_one use_sigmoid) =
     residual_stages x"
  by (simp add: conv_block_def)

lemma main_path_filters_conv_block:
  "main_path_filters (conv_block x filters block_name index pooling one_by_one use_sigmoid) =
     main_path_filters x @ [filters]"
  by (simp add: conv_block_def)

lemma block_conv_block:
  "block_input (conv_block x filters block_name index pooling one_by_one use_sigmoid) = Some x"
  "block_filters (conv_block x filters block_name index pooling one_by_one use_sigmoid) = Some filters"
  "block_stride (conv_block x filters block_name index pooling one_by_one use_sigmoid) =
     Some (if pooling then 2 else 1)"
  "block_kernel (conv_block x filters block_name index pooling one_by_one use_sigmoid) =
     Some (if one_by_one then 1 else 3)"
  by (simp_all add: conv_block_def)

lemma discriminator_stage_eq:
  "discriminator_stage r (x, filters) =
     (Add (''add_'' @ str_int (int r + 1))
        (conv_block x filters ''conv_block'' (Some (int r + 1)) True False False)
        (conv_block (conv_block x filters ''conv_block'' (Some (int r + 1)) True False False)
           filters ''conv_1by1'' (Some (int r + 1)) False True False),
      filters * 2)"
  by (simp add: discriminator_stage_def Let_def)

lemma discriminator_stage_shape:
  assumes "shape_of x = Some [2 ^ Suc k, 2 ^ Suc k, ch]"
  shows "shape_of (fst (discriminator_stage r (x, filters))) = Some [2 ^ k, 2 ^ k, filters]"
proof -
  let ?pre = "conv_block x filters ''conv_block'' (Some (int r + 1)) True False False"
  have p: "shape_of ?pre = Some [2 ^ k, 2 ^ k, filters]"
    using shape_of_conv_block [OF assms, of filters "''conv_block''" "Some (int r + 1)" True False False]
    by (simp only: if_True ceil_div_pow2)
  have q: "shape_of (conv_block ?pre filters ''conv_1by1'' (Some (int r + 1)) False True False)
      = Some [2 ^ k, 2 ^ k, filters]"
    using shape_of_conv_block [OF p, of filters "''conv_1by1''" "Some (int r + 1)" False True False]
    by (simp only: if_False ceil_div_one)
  show ?thesis
    by (simp only: discriminator_stage_eq fst_conv shape_of.simps p q) simp
qed

lemma discriminator_stage_residual:
  "residual_stages (fst (discriminator_stage r (x, filters))) =
     residual_stages x @
       [(conv_block x filters ''conv_block'' (Some (int r + 1)) True False False,
         conv_block (conv_block x filters ''conv_block'' (Some (int r + 1)) True False False)
           filters ''conv_1by1'' (Some (int r + 1)) False True False)]"
  by (simp only: discriminator_stage_eq fst_conv residual_stages.simps residual_stages_conv_block)

lemma discriminator_loop_residual:
  assumes "residual_stages x = []"
  shows "length (residual_stages (fst (fold discriminator_stage [0..<j] (x, filters)))) = j
     \<and> list_all projects_block_output
          (residual_stages (fst (fold discriminator_stage [0..<j] (x, filters))))"
proof (induction j)
  case 0
  then show ?case using assms by simp
next
  case (Suc j)
  obtain y f where yf: "fold discriminator_stage [0..<j] (x, filters) = (y, f)"
    by (cases "fold discriminator_stage [0..<j] (x, filters)")
  with Suc have y: "length (residual_stages y) = j" "list_all projects_block_output (residual_stages y)"
    by simp_all
  have "projects_block_output
       (conv_block y f ''conv_block'' (Some (int j + 1)) True False False,
         conv_block (conv_block y f ''conv_block'' (Some (int j + 1)) True False False)
           f ''conv_1by1'' (Some (int j + 1)) False True False)"
    by (simp add: projects_block_output_def block_conv_block)
  with y show ?case
    by (simp only: fold_upt_Suc yf discriminator_stage_residual) simp
qed

text \<open>
  Claim C2, amended. The discriminator has \<open>R\<close> residual stages. In each of them the
  one-by-one projection is applied to the output of the stride-two block of that stage
  (the tensor the source calls \<open>pre\<close>), and the \<open>Add\<close> layer sums that output and
  its projection.
\<close>

theorem discriminator_projection_input:
  "\<exists>out. discriminator vector_dim R first_channels c = Model [Input [2 ^ R, 2 ^ R, c]] [out]
     \<and> length (residual_stages out) = R
     \<and> (\<forall>(p, q) \<in> set (residual_stages out).
           block_stride p = Some 2 \<and> block_kernel q = Some 1 \<and> block_input q = Some p)"
proof -
  let ?stem = "conv_block (Input [2 ^ R, 2 ^ R, c]) (first_channels * 2) ''stem'' None False False False"
  let ?s = "fold discriminator_stage [0..<R] (?stem, first_channels * 2)"
  let ?out = "Dense (vector_dim + 1) None ''prediction'' (GlobalAveragePooling2D ''prediction_GAP'' (fst ?s))"
  have d: "discriminator vector_dim R first_channels c = Model [Input [2 ^ R, 2 ^ R, c]] [?out]"
    by (simp add: discriminator_def Let_def)
  have "residual_stages ?stem = []"
    by (simp add: residual_stages_conv_block)
  from discriminator_loop_residual [OF this, of R "first_channels * 2"]
  have l: "length (residual_stages ?out) = R"
    and a: "list_all projects_block_output (residual_stages ?out)"
    by simp_all
  from a have "\<forall>(p, q) \<in> set (residual_stages ?out).
           block_stride p = Some 2 \<and> block_kernel q = Some 1 \<and> block_input q = Some p"
    by (auto simp: list_all_iff projects_block_output_def)
  with d l show ?thesis by blast
qed

lemma discriminator_32_1_8_1:
  "discriminator 32 1 8 1 = Model [Input [2, 2, 1]]
     [Dense 33 None ''prediction'' (GlobalAveragePooling2D ''prediction_GAP''
        (Add ''add_1''
          (conv_block (conv_block (Input [2, 2, 1]) 16 ''stem'' None False False False)
             16 ''conv_block'' (Some 1) True False False)
          (conv_block
             (conv_block (conv_block (Input [2, 2, 1]) 16 ''stem'' None False False False)
                16 ''conv_block'' (Some 1) True False False)
             16 ''conv_1by1'' (Some 1) False True False)))]"
  by (simp add: discriminator_def Let_def discriminator_stage_eq str_int_def decimal.simps digit_def)

theorem discriminator_projection_input_witness:
  "\<exists>out. discriminator 32 1 8 1 = Model [Input [2, 2, 1]] [out]
     \<and> residual_stages out =
         [(conv_block (conv_block (Input [2, 2, 1]) 16 ''stem'' None False False False)
             16 ''conv_block'' (Some 1) True False False,
           conv_block
             (conv_block (conv_block (Input [2, 2, 1]) 16 ''stem'' None False False False)
                16 ''conv_block'' (Some 1) True False False)
             16 ''conv_1by1'' (Some 1) False True False)]
     \<and> block_stride (conv_block (conv_block (Input [2, 2, 1]) 16 ''stem'' None False False False)
             16 ''conv_block'' (Some 1) True False False) = Some 2
     \<and> block_input (conv_block
             (conv_block (conv_block (Input [2, 2, 1]) 16 ''stem'' None False False False)
                16 ''conv_block'' (Some 1) True False False)
             16 ''conv_1by1'' (Some 1) False True False) =
         Some (conv_block (conv_block (Input [2, 2, 1]) 16 ''stem'' None False False False)
             16 ''conv_block'' (Some 1) True False False)"
  using discriminator_projection_input [of 32 1 8 1]
  unfolding discriminator_32_1_8_1
  by (simp add: residual_stages_conv_block block_conv_block)

text \<open>
  Claim C2, as stated: the projection is applied to the tensor that enters the
  stride-two block. With one stage (\<open>R = 1\<close>, eight base channels) the stride-two block
  is applied to the stem output, while the projection is applied to the output of the
  stride-two block, which is a different tensor.
\<close>

theorem discriminator_projection_not_on_stage_input:
  "outputs (discriminator 32 1 8 1) =
     [Dense 33 None ''prediction'' (GlobalAveragePooling2D ''prediction_GAP''
        (Add ''add_1''
          (conv_block (conv_block (Input [2, 2, 1]) 16 ''stem'' None False False False)
             16 ''conv_block'' (Some 1) True False False)
          (conv_block
             (conv_block (conv_block (Input [2, 2, 1]) 16 ''stem'' None False False False)
                16 ''conv_block'' (Some 1) True False False)
             16 ''conv_1by1'' (Some 1) False True False)))]
   \<and> block_input (conv_block (conv_block (Input [2, 2, 1]) 16 ''stem'' None False False False)
             16 ''conv_block'' (Some 1) True False False)
       = Some (conv_block (Input [2, 2, 1]) 16 ''stem'' None False False False)
   \<and> block_input (conv_block
             (conv_block (conv_block (Input [2, 2, 1]) 16 ''stem'' None False False False)
                16 ''conv_block'' (Some 1) True False False)
             16 ''conv_1by1'' (Some 1) False True False)
       \<noteq> Some (conv_block (Input [2, 2, 1]) 16 ''stem'' None False False False)"
  unfolding discriminator_32_1_8_1
  by (simp add: block_conv_block) (simp add: conv_block_def)

subsection \<open>Rounding to a float\<close>

lemma bit_length_0: "bit_length 0 = 0"
  by (simp add: bit_length.simps)

lemma bit_length_pos: "0 < n \<Longrightarrow> bit_length n = Suc (bit_length (n div 2))"
  by (subst bit_length.simps) simp

lemma bit_length_le: "n < 2 ^ k \<Longrightarrow> bit_length n \<le> k"
proof (induction k arbitrary: n)
  case 0
  then show ?case by (simp add: bit_length_0)
next
  case (Suc k)
  show ?case
  proof (cases "n = 0")
    case True
    then show ?thesis by (simp add: bit_length_0)
  next
    case False
    from Suc.prems have "n div 2 < 2 ^ k" by simp
    from Suc.IH [OF this] False show ?thesis by (simp add: bit_length_pos)
  qed
qed

lemma bit_length_bound: "n < 2 ^ bit_length n"
proof (induction n rule: bit_length.induct)
  case (1 n)
  show ?case
  proof (cases "n = 0")
    case True
    then show ?thesis by simp
  next
    case False
    with 1 have "n div 2 < 2 ^ bit_length (n div 2)" by simp
    then have "n < 2 * 2 ^ bit_length (n div 2)" by linarith
    with False show ?thesis by (simp add: bit_length_pos)
  qed
qed

lemma round53_exact:
  assumes "m < 2 ^ 53"
  shows "round53 (m * 2 ^ k) = m * 2 ^ k"
proof (cases "bit_length (m * 2 ^ k) \<le> 53")
  case True
  then show ?thesis by (simp add: round53_def)
next
  case False
  define b where "b = bit_length (m * 2 ^ k)"
  define s where "s = b - 53"
  from False have b: "53 < b" by (simp add: b_def)
  have "m * 2 ^ k < 2 ^ 53 * 2 ^ k" using assms by simp
  then have "m * 2 ^ k < 2 ^ (53 + k)" by (simp add: power_add)
  then have "b \<le> 53 + k" unfolding b_def by (rule bit_length_le)
  then have sk: "s \<le> k" by (simp add: s_def)
  have s1: "1 \<le> s" using b by (simp add: s_def)
  have dv: "(2::nat) ^ s dvd m * 2 ^ k"
    using sk by (simp add: le_imp_power_dvd)
  then have lo: "(m * 2 ^ k) mod 2 ^ s = 0" by simp
  have half: "(2::nat) ^ s div 2 \<noteq> 0"
  proof -
    obtain t where "s = Suc t" using s1 by (cases s) auto
    then show ?thesis by simp
  qed
  have "round53 (m * 2 ^ k) = (m * 2 ^ k) div 2 ^ s * 2 ^ s"
    using False lo half
    by (simp add: round53_def Let_def b_def [symmetric] s_def [symmetric] del: power_Suc)
  also have "\<dots> = m * 2 ^ k" using dv by simp
  finally show ?thesis .
qed

lemma round53_le: "round53 n \<le> 2 ^ bit_length n"
proof (cases "bit_length n \<le> 53")
  case True
  then show ?thesis using bit_length_bound [of n] by (simp add: round53_def)
next
  case False
  define b where "b = bit_length n"
  define s where "s = b - 53"
  from False have b: "53 < b" by (simp add: b_def)
  then have bs: "b = 53 + s" by (simp add: s_def)
  have "n < 2 ^ b" unfolding b_def by (rule bit_length_bound)
  then have "n < 2 ^ 53 * 2 ^ s" by (simp add: bs power_add)
  then have hi: "n div 2 ^ s < 2 ^ 53"
    by (simp add: less_mult_imp_div_less)
  have "round53 n \<le> (n div 2 ^ s + 1) * 2 ^ s"
    using False
    by (simp add: round53_def Let_def b_def [symmetric] s_def [symmetric] del: power_Suc)
  also have "\<dots> \<le> 2 ^ 53 * 2 ^ s"
    using hi by (intro mult_right_mono) simp_all
  also have "\<dots> = 2 ^ b" by (simp add: bs power_add)
  finally show ?thesis by (simp add: b_def)
qed

lemma int_truediv2_no_overflow:
  assumes "\<bar>a\<bar> < 2 ^ 1024"
  shows "int_truediv2 a = Inr (of_int (sgn a) * of_nat (round53 (nat \<bar>a\<bar>)) / 2)"
proof -
  have "nat \<bar>a\<bar> < 2 ^ 1024" using assms by (simp add: nat_less_iff)
  then have "bit_length (nat \<bar>a\<bar>) \<le> 1024" by (rule bit_length_le)
  then have "(2::nat) ^ bit_length (nat \<bar>a\<bar>) \<le> 2 ^ 1024"
    by (rule power_increasing) simp
  with round53_le [of "nat \<bar>a\<bar>"] have "round53 (nat \<bar>a\<bar>) \<le> 2 ^ 1024" by linarith
  moreover have "(2::nat) ^ 1024 < 2 ^ 1025"
    by (rule power_strict_increasing) simp_all
  ultimately have "round53 (nat \<bar>a\<bar>) < 2 ^ 1025" by (rule le_less_trans)
  then have "bit_length (round53 (nat \<bar>a\<bar>)) \<le> 1025" by (rule bit_length_le)
  then show ?thesis by (simp add: int_truediv2_def Let_def)
qed

subsection \<open>The generator\<close>

lemma shape_of_deconv_block:
  "shape_of x = Some [h, w, ch] \<Longrightarrow>
   shape_of (deconv_block x filters block_name index) = Some [h * 2, w * 2, filters]"
  by (simp add: deconv_block_def)

lemma residual_stages_deconv_block:
  "residual_stages (deconv_block x filters block_name index) = residual_stages x"
  by (simp add: deconv_block_def)

lemma main_path_filters_deconv_block:
  "main_path_filters (deconv_block x filters block_name index) = main_path_filters x @ [filters]"
  by (simp add: deconv_block_def)

lemma block_filters_deconv_block:
  "block_filters (deconv_block x filters block_name index) = Some filters"
  by (simp add: deconv_block_def)

lemma generator_stage_eq:
  "generator_stage r (x, filters) =
     (Add (''add_'' @ str_int (int r + 1))
        (deconv_block x (py_int filters) ''deconv_block'' (int r + 1))
        (conv_block (deconv_block x (py_int filters) ''deconv_block'' (int r + 1))
           (py_int filters) ''conv_1by1'' (Some (int r + 1)) False True False),
      float_truediv2 filters)"
  by (simp add: generator_stage_def Let_def)

lemma generator_loop_filters:
  "snd (fold generator_stage [0..<j] (x, filters)) = filters / 2 ^ j"
proof (induction j)
  case 0
  then show ?case by simp
next
  case (Suc j)
  obtain y f where yf: "fold generator_stage [0..<j] (x, filters) = (y, f)"
    by (cases "fold generator_stage [0..<j] (x, filters)")
  with Suc have "f = filters / 2 ^ j" by simp
  then show ?case
    by (simp only: fold_upt_Suc yf generator_stage_eq snd_conv float_truediv2_def) simp
qed

lemma generator_stage_shape:
  assumes "shape_of x = Some [h, w, ch]"
  shows "shape_of (fst (generator_stage r (x, filters))) = Some [h * 2, w * 2, py_int filters]"
proof -
  let ?pre = "deconv_block x (py_int filters) ''deconv_block'' (int r + 1)"
  have p: "shape_of ?pre = Some [h * 2, w * 2, py_int filters]"
    using assms by (rule shape_of_deconv_block)
  have q: "shape_of (conv_block ?pre (py_int filters) ''conv_1by1'' (Some (int r + 1)) False True False)
      = Some [h * 2, w * 2, py_int filters]"
    using shape_of_conv_block [OF p, of "py_int filters" "''conv_1by1''" "Some (int r + 1)" False True False]
    by (simp only: if_False ceil_div_one)
  show ?thesis
    by (simp only: generator_stage_eq fst_conv shape_of.simps p q) simp
qed

lemma generator_loop_shape:
  assumes "shape_of x = Some [1, 1, ch]"
  shows "\<exists>ch'. shape_of (fst (fold generator_stage [0..<j] (x, filters))) = Some [2 ^ j, 2 ^ j, ch']"
proof (induction j)
  case 0
  then show ?case using assms by simp
next
  case (Suc j)
  then obtain ch' where
    s: "shape_of (fst (fold generator_stage [0..<j] (x, filters))) = Some [2 ^ j, 2 ^ j, ch']"
    by auto
  obtain y f where yf: "fold generator_stage [0..<j] (x, filters) = (y, f)"
    by (cases "fold generator_stage [0..<j] (x, filters)")
  with s have "shape_of y = Some [2 ^ j, 2 ^ j, ch']" by simp
  from generator_stage_shape [OF this, of j f]
  show ?case by (simp only: fold_upt_Suc yf) (simp add: mult.commute)
qed

lemma sigmoid_range: "0 \<le> sigmoid x \<and> sigmoid x \<le> 1"
proof -
  have p: "0 < 1 + exp (- x)" by (simp add: add_pos_pos)
  then have "1 / (1 + exp (- x)) \<le> 1" by (simp add: divide_le_eq)
  moreover have "0 \<le> 1 / (1 + exp (- x))" using p by simp
  ultimately show ?thesis by (simp add: sigmoid_def)
qed

lemma run_sigmoid_block:
  "\<forall>y \<in> set (run F v (conv_block x filters block_name index pooling one_by_one True)).
      0 \<le> y \<and> y \<le> 1"
  by (auto simp: conv_block_def sigmoid_range)

lemma generator_eq:
  assumes "\<bar>last_channels * 2 ^ R\<bar> < 2 ^ 1024"
  shows "generator vector_dim R last_channels c =
     Inr (Model [Input [vector_dim]]
       [conv_block
          (fst (fold generator_stage [0..<R]
             (conv_block (Reshape [1, 1, vector_dim] (Input [vector_dim]))
                (last_channels * 2 ^ R) ''stem'' None False True False,
              of_int (sgn (last_channels * 2 ^ R))
                * of_nat (round53 (nat \<bar>last_channels * 2 ^ R\<bar>)) / 2)))
          c ''prediction_conv'' None False False True])"
  unfolding generator_def Let_def int_truediv2_no_overflow [OF assms]
  by (simp only: sum.case)

subsection \<open>Filter counts of the generator\<close>

lemma py_int_of_int: "py_int (of_int z) = z"
  by (simp add: py_int_def)

lemma halved_filters:
  assumes "r < R"
  shows "(of_int (lc * 2 ^ R) / 2 :: rat) / 2 ^ r = of_int (lc * 2 ^ (R - Suc r))"
proof -
  have "R = (R - Suc r) + Suc r" using assms by simp
  then have "(2::rat) ^ R = 2 ^ (R - Suc r) * 2 ^ Suc r"
    by (metis power_add)
  then show ?thesis by simp
qed

lemma stage_filters_append:
  "stage_filters (Add n p q) = stage_filters p @ [(block_filters p, block_filters q)]"
  by (simp add: stage_filters_def)

lemma stage_filters_conv_block:
  "stage_filters (conv_block x filters block_name index pooling one_by_one use_sigmoid) =
     stage_filters x"
  by (simp add: stage_filters_def residual_stages_conv_block)

lemma stage_filters_deconv_block:
  "stage_filters (deconv_block x filters block_name index) = stage_filters x"
  by (simp add: stage_filters_def residual_stages_deconv_block)

lemma generator_stage_filters:
  "stage_filters (fst (generator_stage r (x, filters))) =
     stage_filters x @ [(Some (py_int filters), Some (py_int filters))]"
  by (simp only: generator_stage_eq fst_conv stage_filters_append stage_filters_deconv_block
        block_filters_deconv_block block_conv_block)

lemma generator_stage_main_path:
  "main_path_filters (fst (generator_stage r (x, filters))) =
     main_path_filters x @ [py_int filters]"
  by (simp only: generator_stage_eq fst_conv main_path_filters.simps main_path_filters_deconv_block)

lemma generator_loop_exact:
  assumes "j \<le> R"
  shows "stage_filters (fst (fold generator_stage [0..<j] (x, of_int (lc * 2 ^ R) / 2))) =
           stage_filters x @
             map (\<lambda>r. (Some (lc * 2 ^ (R - Suc r)), Some (lc * 2 ^ (R - Suc r)))) [0..<j]
       \<and> main_path_filters (fst (fold generator_stage [0..<j] (x, of_int (lc * 2 ^ R) / 2))) =
           main_path_filters x @ map (\<lambda>r. lc * 2 ^ (R - Suc r)) [0..<j]"
  using assms
proof (induction j)
  case 0
  then show ?case by simp
next
  case (Suc j)
  obtain y f where yf: "fold generator_stage [0..<j] (x, of_int (lc * 2 ^ R) / 2) = (y, f)"
    by (cases "fold generator_stage [0..<j] (x, of_int (lc * 2 ^ R) / 2)")
  from generator_loop_filters [of j x "of_int (lc * 2 ^ R) / 2"] yf
  have "f = (of_int (lc * 2 ^ R) / 2) / 2 ^ j" by simp
  also have "\<dots> = of_int (lc * 2 ^ (R - Suc j))"
    using Suc.prems by (intro halved_filters) simp
  finally have f: "py_int f = lc * 2 ^ (R - Suc j)" by (simp only: py_int_of_int)
  from Suc yf have
    y: "stage_filters y = stage_filters x @
             map (\<lambda>r. (Some (lc * 2 ^ (R - Suc r)), Some (lc * 2 ^ (R - Suc r)))) [0..<j]"
       "main_path_filters y = main_path_filters x @ map (\<lambda>r. lc * 2 ^ (R - Suc r)) [0..<j]"
    by simp_all
  show ?case
    by (simp only: fold_upt_Suc yf generator_stage_filters generator_stage_main_path y f) simp
qed

lemma stage_index_shift: "map (\<lambda>r. g (R - Suc r)) [0..<R] = map (\<lambda>r. g (R - r)) [1..<Suc R]"
proof -
  have "[1..<Suc R] = map Suc [0..<R]"
    by (simp only: map_Suc_upt One_nat_def)
  then show ?thesis by (simp add: comp_def)
qed


lemma round53_filters:
  assumes "1 \<le> lc" and "lc \<le> 2 ^ 53"
  shows "round53 (nat (lc * 2 ^ R)) = nat (lc * 2 ^ R)"
proof (cases "lc = 2 ^ 53")
  case True
  then have "nat (lc * 2 ^ R) = 1 * 2 ^ (53 + R)"
    by (simp add: power_add nat_mult_distrib nat_power_eq)
  then have e: "nat (lc * 2 ^ R) = 1 * 2 ^ (53 + R)" by simp
  show ?thesis unfolding e by (rule round53_exact) simp
next
  case False
  with assms have "lc < 2 ^ 53" by simp
  then have "nat lc < 2 ^ 53" using assms(1) by (simp add: nat_less_iff)
  then have "round53 (nat lc * 2 ^ R) = nat lc * 2 ^ R" by (rule round53_exact)
  moreover have "nat (lc * 2 ^ R) = nat lc * 2 ^ R"
    using assms(1) by (simp add: nat_mult_distrib nat_power_eq)
  ultimately show ?thesis by simp
qed

lemma generator_filters_exact:
  assumes "1 \<le> last_channels" and "last_channels \<le> 2 ^ 53"
    and "last_channels * 2 ^ R < 2 ^ 1024"
  shows "\<exists>out. generator vector_dim R last_channels c = Inr (Model [Input [vector_dim]] [out])
     \<and> main_path_filters out =
         [last_channels * 2 ^ R] @ map (\<lambda>r. last_channels * 2 ^ (R - r)) [1..<Suc R] @ [c]
     \<and> stage_filters out =
         map (\<lambda>r. (Some (last_channels * 2 ^ (R - r)), Some (last_channels * 2 ^ (R - r))))
           [1..<Suc R]
     \<and> (\<forall>r. 0 < last_channels * 2 ^ (R - r))"
proof -
  let ?n = "last_channels * 2 ^ R"
  let ?stem = "conv_block (Reshape [1, 1, vector_dim] (Input [vector_dim])) ?n ''stem'' None False True False"
  let ?f = "of_int (sgn ?n) * of_nat (round53 (nat \<bar>?n\<bar>)) / 2 :: rat"
  let ?s = "fold generator_stage [0..<R] (?stem, ?f)"
  let ?out = "conv_block (fst ?s) c ''prediction_conv'' None False False True"
  have pos: "0 < ?n" using assms(1) by simp
  then have a: "\<bar>?n\<bar> = ?n" by simp
  with assms(3) have "\<bar>?n\<bar> < 2 ^ 1024" by (simp only:)
  then have g: "generator vector_dim R last_channels c = Inr (Model [Input [vector_dim]] [?out])"
    by (rule generator_eq)
  have "of_nat (round53 (nat ?n)) = (of_nat (nat ?n) :: rat)"
    by (simp only: round53_filters [OF assms(1,2)])
  also have "\<dots> = of_int ?n" using pos by simp
  finally have "of_nat (round53 (nat ?n)) = (of_int ?n :: rat)" .
  moreover have "sgn ?n = 1" using pos by simp
  ultimately have f: "?f = of_int ?n / 2" by (simp only: a of_int_1 mult_1)
  have st: "stage_filters ?stem = []" "main_path_filters ?stem = [?n]"
    by (simp_all add: residual_stages_conv_block main_path_filters_conv_block stage_filters_def)
  from generator_loop_exact [where j = R and R = R and x = ?stem and lc = last_channels, OF le_refl]
  have l: "stage_filters (fst ?s) =
           map (\<lambda>r. (Some (last_channels * 2 ^ (R - Suc r)), Some (last_channels * 2 ^ (R - Suc r)))) [0..<R]"
    "main_path_filters (fst ?s) = [?n] @ map (\<lambda>r. last_channels * 2 ^ (R - Suc r)) [0..<R]"
    by (simp_all only: f st append_Nil)
  have m: "main_path_filters ?out =
         [?n] @ map (\<lambda>r. last_channels * 2 ^ (R - r)) [1..<Suc R] @ [c]"
    by (simp only: main_path_filters_conv_block l(2)
          stage_index_shift [of "\<lambda>k. last_channels * 2 ^ k" R] append_assoc)
  have t: "stage_filters ?out =
         map (\<lambda>r. (Some (last_channels * 2 ^ (R - r)), Some (last_channels * 2 ^ (R - r))))
           [1..<Suc R]"
    by (simp only: stage_filters_conv_block l(1)
          stage_index_shift [of "\<lambda>k. (Some (last_channels * 2 ^ k), Some (last_channels * 2 ^ k))" R])
  have "\<forall>r. 0 < last_channels * 2 ^ (R - r)" using assms(1) by simp
  with g m t show ?thesis by blast
qed

subsection \<open>Filter counts of the two networks side by side\<close>

lemma discriminator_stage_filters:
  "stage_filters (fst (discriminator_stage r (x, filters))) =
     stage_filters x @ [(Some filters, Some filters)]"
  by (simp only: discriminator_stage_eq fst_conv stage_filters_append stage_filters_conv_block
        block_conv_block)

lemma discriminator_stage_snd: "snd (discriminator_stage r (x, filters)) = filters * 2"
  by (simp only: discriminator_stage_eq snd_conv)

lemma discriminator_loop_filters:
  "stage_filters (fst (fold discriminator_stage [0..<j] (x, filters))) =
     stage_filters x @ map (\<lambda>r. (Some (filters * 2 ^ r), Some (filters * 2 ^ r))) [0..<j]
   \<and> snd (fold discriminator_stage [0..<j] (x, filters)) = filters * 2 ^ j"
proof (induction j)
  case 0
  then show ?case by simp
next
  case (Suc j)
  obtain y f where yf: "fold discriminator_stage [0..<j] (x, filters) = (y, f)"
    by (cases "fold discriminator_stage [0..<j] (x, filters)")
  with Suc have y: "stage_filters y =
      stage_filters x @ map (\<lambda>r. (Some (filters * 2 ^ r), Some (filters * 2 ^ r))) [0..<j]"
    and f: "f = filters * 2 ^ j"
    by simp_all
  show ?case
    by (simp only: fold_upt_Suc yf discriminator_stage_filters discriminator_stage_snd y)
      (simp add: f)
qed

lemma discriminator_stage_filter_counts:
  "map stage_filters (outputs (discriminator vector_dim R first_channels c)) =
     [map (\<lambda>r. (Some (first_channels * 2 * 2 ^ r), Some (first_channels * 2 * 2 ^ r))) [0..<R]]"
proof -
  let ?stem = "conv_block (Input [2 ^ R, 2 ^ R, c]) (first_channels * 2) ''stem'' None False False False"
  have "stage_filters ?stem = []"
    by (simp add: residual_stages_conv_block stage_filters_def)
  with discriminator_loop_filters [of R ?stem "first_channels * 2"]
  have "stage_filters (fst (fold discriminator_stage [0..<R] (?stem, first_channels * 2))) =
      map (\<lambda>r. (Some (first_channels * 2 * 2 ^ r), Some (first_channels * 2 * 2 ^ r))) [0..<R]"
    by simp
  then show ?thesis
    by (simp add: discriminator_def Let_def stage_filters_def)
qed

text \<open>
  Claim C1 says that, for equal base channel counts, the filter counts of the
  generator's stages read backwards are the filter counts of the discriminator's
  stages. At the configuration the module itself builds (vector dimension 32, four
  stages, eight base channels, one image channel) the discriminator's stages use 16,
  32, 64 and 128 filters, while the generator's stages read backwards use 8, 16, 32 and
  64: the discriminator starts from \<open>first_channels * 2\<close>, twice the count its
  documentation gives for the first convolution.
\<close>

theorem dual_filter_counts_differ:
  "map stage_filters (outputs (discriminator 32 4 8 1)) =
     [[(Some 16, Some 16), (Some 32, Some 32), (Some 64, Some 64), (Some 128, Some 128)]]
   \<and> map_sum id (map (rev \<circ> stage_filters) \<circ> outputs) (generator 32 4 8 1) =
     Inr [[(Some 8, Some 8), (Some 16, Some 16), (Some 32, Some 32), (Some 64, Some 64)]]"
proof -
  have u: "[0..<4] = [0, 1, 2, 3]" "[1..<Suc 4] = [1, 2, 3, 4]"
    by (simp_all add: upt_rec)
  have d: "map stage_filters (outputs (discriminator 32 4 8 1)) =
     [[(Some 16, Some 16), (Some 32, Some 32), (Some 64, Some 64), (Some 128, Some 128)]]"
    unfolding discriminator_stage_filter_counts u by simp
  have h: "(1::int) \<le> 8" "(8::int) \<le> 2 ^ 53" "(8::int) * 2 ^ 4 < 2 ^ 1024"
    by simp_all
  from generator_filters_exact [OF h, of 32 1]
  obtain out where "generator 32 4 8 1 = Inr (Model [Input [32]] [out])"
    and "stage_filters out =
      map (\<lambda>r. (Some (8 * 2 ^ (4 - r)), Some (8 * 2 ^ (4 - r)))) [1..<Suc 4]"
    by blast
  then have "map_sum id (map (rev \<circ> stage_filters) \<circ> outputs) (generator 32 4 8 1) =
     Inr [[(Some 8, Some 8), (Some 16, Some 16), (Some 32, Some 32), (Some 64, Some 64)]]"
    unfolding u by simp
  with d show ?thesis by blast
qed

subsection \<open>The networks from their input to their output\<close>

lemma leaves_conv_block:
  "leaves (conv_block x filters block_name index pooling one_by_one use_sigmoid) = leaves x"
  by (simp add: conv_block_def)

lemma leaves_deconv_block:
  "leaves (deconv_block x filters block_name index) = leaves x"
  by (simp add: deconv_block_def)

lemma generator_stage_leaves:
  "leaves (fst (generator_stage r (x, filters))) = leaves x"
  by (simp only: generator_stage_eq fst_conv leaves.simps leaves_conv_block leaves_deconv_block
        Un_absorb)

lemma generator_stage_residual:
  "length (residual_stages (fst (generator_stage r (x, filters)))) =
     Suc (length (residual_stages x))"
  by (simp only: generator_stage_eq fst_conv residual_stages.simps residual_stages_deconv_block)
    simp

lemma generator_loop_structure:
  "leaves (fst (fold generator_stage [0..<j] (x, filters))) = leaves x
   \<and> length (residual_stages (fst (fold generator_stage [0..<j] (x, filters)))) =
       length (residual_stages x) + j"
proof (induction j)
  case 0
  then show ?case by simp
next
  case (Suc j)
  obtain y f where yf: "fold generator_stage [0..<j] (x, filters) = (y, f)"
    by (cases "fold generator_stage [0..<j] (x, filters)")
  with Suc have "leaves y = leaves x" "length (residual_stages y) = length (residual_stages x) + j"
    by simp_all
  then show ?case
    by (simp only: fold_upt_Suc yf generator_stage_leaves generator_stage_residual) simp
qed

lemma discriminator_stage_leaves:
  "leaves (fst (discriminator_stage r (x, filters))) = leaves x"
  by (simp only: discriminator_stage_eq fst_conv leaves.simps leaves_conv_block Un_absorb)

lemma discriminator_loop_leaves:
  "leaves (fst (fold discriminator_stage [0..<j] (x, filters))) = leaves x"
proof (induction j)
  case 0
  then show ?case by simp
next
  case (Suc j)
  obtain y f where yf: "fold discriminator_stage [0..<j] (x, filters) = (y, f)"
    by (cases "fold discriminator_stage [0..<j] (x, filters)")
  with Suc have "leaves y = leaves x" by simp
  then show ?case
    by (simp only: fold_upt_Suc yf discriminator_stage_leaves)
qed

lemma discriminator_loop_channels:
  assumes "shape_of x = Some [2 ^ R, 2 ^ R, filters]" and "j \<le> R"
  shows "shape_of (fst (fold discriminator_stage [0..<j] (x, filters))) =
           Some [2 ^ (R - j), 2 ^ (R - j), filters * 2 ^ (j - 1)]
       \<and> snd (fold discriminator_stage [0..<j] (x, filters)) = filters * 2 ^ j"
  using assms(2)
proof (induction j)
  case 0
  then show ?case using assms(1) by simp
next
  case (Suc j)
  obtain y f where yf: "fold discriminator_stage [0..<j] (x, filters) = (y, f)"
    by (cases "fold discriminator_stage [0..<j] (x, filters)")
  with Suc have s: "shape_of y = Some [2 ^ (R - j), 2 ^ (R - j), filters * 2 ^ (j - 1)]"
    and f: "f = filters * 2 ^ j"
    by simp_all
  have "R - j = Suc (R - Suc j)" using Suc.prems by simp
  with s have "shape_of y = Some [2 ^ Suc (R - Suc j), 2 ^ Suc (R - Suc j), filters * 2 ^ (j - 1)]"
    by simp
  from discriminator_stage_shape [OF this, of j f]
  show ?case
    by (simp only: fold_upt_Suc yf discriminator_stage_snd) (simp add: f)
qed


text \<open>
  Claim C6. For every configuration with a positive vector dimension \<open>V\<close>, base channel
  count and image channel count, the discriminator takes an image of shape
  \<open>(2^R, 2^R, C)\<close> and maps it to a vector of length \<open>V + 1\<close>: its output is the dense
  layer \<open>prediction\<close> with \<open>V + 1\<close> units and no activation, called on the global
  average pooling of a tensor that is computed from the input image and from nothing
  else, through \<open>R\<close> residual stages, and that has shape
  \<open>(1, 1, first_channels * 2 * 2^(R - 1))\<close>. The output has shape \<open>(V + 1)\<close>, and its
  value is what the dense layer computes from the pooled features, with nothing applied
  afterwards.
\<close>

theorem discriminator_image_to_vector:
  assumes "1 \<le> vector_dim" and "1 \<le> first_channels" and "1 \<le> c"
  shows "\<exists>x. discriminator vector_dim R first_channels c =
          Model [Input [2 ^ R, 2 ^ R, c]]
            [Dense (vector_dim + 1) None ''prediction''
               (GlobalAveragePooling2D ''prediction_GAP'' x)]
     \<and> leaves x = {Input [2 ^ R, 2 ^ R, c]}
     \<and> length (residual_stages x) = R
     \<and> shape_of x = Some [1, 1, first_channels * 2 * 2 ^ (R - 1)]
     \<and> shape_of (Dense (vector_dim + 1) None ''prediction''
               (GlobalAveragePooling2D ''prediction_GAP'' x)) = Some [vector_dim + 1]
     \<and> 2 \<le> vector_dim + 1
     \<and> (\<forall>F v. run F v (Dense (vector_dim + 1) None ''prediction''
                         (GlobalAveragePooling2D ''prediction_GAP'' x)) =
                 dense F (vector_dim + 1) ''prediction''
                   (global_average_pooling2d F ''prediction_GAP'' (run F v x)))"
proof -
  let ?inp = "Input [2 ^ R, 2 ^ R, c]"
  let ?stem = "conv_block ?inp (first_channels * 2) ''stem'' None False False False"
  let ?s = "fold discriminator_stage [0..<R] (?stem, first_channels * 2)"
  let ?x = "fst ?s"
  let ?out = "Dense (vector_dim + 1) None ''prediction'' (GlobalAveragePooling2D ''prediction_GAP'' ?x)"
  have d: "discriminator vector_dim R first_channels c = Model [?inp] [?out]"
    by (simp add: discriminator_def Let_def)
  have lv: "leaves ?x = {?inp}"
    by (simp only: discriminator_loop_leaves leaves_conv_block leaves.simps)
  have "residual_stages ?stem = []"
    by (simp add: residual_stages_conv_block)
  from discriminator_loop_residual [OF this, of R "first_channels * 2"]
  have ln: "length (residual_stages ?x) = R" by simp
  have "shape_of ?inp = Some [2 ^ R, 2 ^ R, c]" by simp
  from shape_of_conv_block [OF this, of "first_channels * 2" "''stem''" None False False False]
  have "shape_of ?stem = Some [2 ^ R, 2 ^ R, first_channels * 2]"
    by (simp only: if_False ceil_div_one)
  from discriminator_loop_channels [OF this le_refl]
  have sx: "shape_of ?x = Some [1, 1, first_channels * 2 * 2 ^ (R - 1)]" by simp
  then have so: "shape_of ?out = Some [vector_dim + 1]" by simp
  have v: "2 \<le> vector_dim + 1" using assms(1) by simp
  have r: "\<forall>F v. run F v ?out =
      dense F (vector_dim + 1) ''prediction'' (global_average_pooling2d F ''prediction_GAP'' (run F v ?x))"
    by simp
  from d lv ln sx so v r show ?thesis by blast
qed

theorem discriminator_image_to_vector_witness:
  "(1::int) \<le> 32 \<and> (1::int) \<le> 8 \<and> (1::int) \<le> 1
   \<and> (\<exists>x. discriminator 32 4 8 1 =
          Model [Input [16, 16, 1]]
            [Dense 33 None ''prediction'' (GlobalAveragePooling2D ''prediction_GAP'' x)]
        \<and> leaves x = {Input [16, 16, 1]}
        \<and> length (residual_stages x) = 4
        \<and> shape_of x = Some [1, 1, 128]
        \<and> shape_of (Dense 33 None ''prediction''
               (GlobalAveragePooling2D ''prediction_GAP'' x)) = Some [33])"
proof -
  have h: "(1::int) \<le> 32" "(1::int) \<le> 8" "(1::int) \<le> 1" by simp_all
  from discriminator_image_to_vector [OF h, of 4]
  obtain x where "discriminator 32 4 8 1 =
          Model [Input [2 ^ 4, 2 ^ 4, 1]]
            [Dense (32 + 1) None ''prediction'' (GlobalAveragePooling2D ''prediction_GAP'' x)]"
    and "leaves x = {Input [2 ^ 4, 2 ^ 4, 1]}"
    and "length (residual_stages x) = 4"
    and "shape_of x = Some [1, 1, 8 * 2 * 2 ^ (4 - 1)]"
    and "shape_of (Dense (32 + 1) None ''prediction''
               (GlobalAveragePooling2D ''prediction_GAP'' x)) = Some [32 + 1]"
    by blast
  then have "discriminator 32 4 8 1 =
          Model [Input [16, 16, 1]]
            [Dense 33 None ''prediction'' (GlobalAveragePooling2D ''prediction_GAP'' x)]
        \<and> leaves x = {Input [16, 16, 1]}
        \<and> length (residual_stages x) = 4
        \<and> shape_of x = Some [1, 1, 128]
        \<and> shape_of (Dense 33 None ''prediction''
               (GlobalAveragePooling2D ''prediction_GAP'' x)) = Some [33]"
    by simp
  then show ?thesis using h by blast
qed

text \<open>
  Claim C5. For every valid configuration the generator is built and maps a vector of
  dimension \<open>V\<close> to an image: its output is the block \<open>prediction_conv\<close> with \<open>C\<close>
  filters and a sigmoid activation, called on a tensor that is computed from the input
  vector and from nothing else, through \<open>R\<close> residual stages. The output has shape
  \<open>(2^R, 2^R, C)\<close>, and every element of its value lies between 0 and 1, whatever the
  trained layers compute and whatever the input value is.
\<close>

theorem generator_vector_to_image:
  assumes "valid_config vector_dim R last_channels c"
  shows "\<exists>x. generator vector_dim R last_channels c =
          Inr (Model [Input [vector_dim]]
            [conv_block x c ''prediction_conv'' None False False True])
     \<and> leaves x = {Input [vector_dim]}
     \<and> length (residual_stages x) = R
     \<and> shape_of (conv_block x c ''prediction_conv'' None False False True) =
           Some [2 ^ R, 2 ^ R, c]
     \<and> (\<forall>F v. \<forall>y \<in> set (run F v (conv_block x c ''prediction_conv'' None False False True)).
            0 \<le> y \<and> y \<le> 1)"
proof -
  let ?n = "last_channels * 2 ^ R"
  let ?inp = "Input [vector_dim]"
  let ?stem = "conv_block (Reshape [1, 1, vector_dim] ?inp) ?n ''stem'' None False True False"
  let ?f = "of_int (sgn ?n) * of_nat (round53 (nat \<bar>?n\<bar>)) / 2 :: rat"
  let ?s = "fold generator_stage [0..<R] (?stem, ?f)"
  let ?x = "fst ?s"
  let ?out = "conv_block ?x c ''prediction_conv'' None False False True"
  from assms have "0 \<le> ?n" and "?n < 2 ^ 1024"
    by (simp_all add: valid_config_def)
  then have "\<bar>?n\<bar> < 2 ^ 1024" by (simp only: abs_of_nonneg)
  then have g: "generator vector_dim R last_channels c = Inr (Model [?inp] [?out])"
    by (rule generator_eq)
  have "leaves ?stem = {?inp}" "residual_stages ?stem = []"
    by (simp_all add: leaves_conv_block residual_stages_conv_block)
  with generator_loop_structure [of R ?stem ?f]
  have lv: "leaves ?x = {?inp}" and ln: "length (residual_stages ?x) = R"
    by simp_all
  have "shape_of (Reshape [1, 1, vector_dim] ?inp) = Some [1, 1, vector_dim]"
    by simp
  from shape_of_conv_block [OF this, of ?n "''stem''" None False True False]
  have "shape_of ?stem = Some [1, 1, ?n]"
    by (simp only: if_False ceil_div_one)
  from generator_loop_shape [OF this, of R ?f]
  obtain ch where "shape_of ?x = Some [2 ^ R, 2 ^ R, ch]" by blast
  from shape_of_conv_block [OF this, of c "''prediction_conv''" None False False True]
  have sh: "shape_of ?out = Some [2 ^ R, 2 ^ R, c]"
    by (simp only: if_False ceil_div_one)
  have rg: "\<forall>F v. \<forall>y \<in> set (run F v ?out). 0 \<le> y \<and> y \<le> 1"
    using run_sigmoid_block by blast
  from g lv ln sh rg show ?thesis by blast
qed

theorem generator_vector_to_image_witness:
  "valid_config 32 4 8 1
   \<and> (\<exists>x. generator 32 4 8 1 =
          Inr (Model [Input [32]] [conv_block x 1 ''prediction_conv'' None False False True])
        \<and> leaves x = {Input [32]}
        \<and> length (residual_stages x) = 4
        \<and> shape_of (conv_block x 1 ''prediction_conv'' None False False True) = Some [16, 16, 1]
        \<and> list_all (\<lambda>y. 0 \<le> y \<and> y \<le> 1)
             (run \<lparr>conv2d = (\<lambda>f k s n xs. xs), conv2d_transpose = (\<lambda>f k s n xs. xs),
                    batch_normalization = (\<lambda>n xs. xs), global_average_pooling2d = (\<lambda>n xs. xs),
                    dense = (\<lambda>u n xs. xs)\<rparr> [0, 1]
                (conv_block x 1 ''prediction_conv'' None False False True)))"
proof -
  have v: "valid_config 32 4 8 1"
    unfolding valid_config_def by simp
  from generator_vector_to_image [OF v]
  obtain x where "generator 32 4 8 1 =
          Inr (Model [Input [32]] [conv_block x 1 ''prediction_conv'' None False False True])"
    and "leaves x = {Input [32]}"
    and "length (residual_stages x) = 4"
    and "shape_of (conv_block x 1 ''prediction_conv'' None False False True) = Some [2 ^ 4, 2 ^ 4, 1]"
    and "\<forall>F v. \<forall>y \<in> set (run F v (conv_block x 1 ''prediction_conv'' None False False True)).
            0 \<le> y \<and> y \<le> 1"
    by blast
  then show ?thesis using v by (auto simp: list_all_iff)
qed


subsection \<open>Filter counts of the generator on a machine of bounded memory\<close>

text \<open>
  The division rounds once the integer has more than 53 significant bits: half of
  \<open>2^54 + 2\<close> is \<open>2^53 + 1\<close>, which is no float, and the quotient is \<open>2^53\<close>. A filter
  count of that size is never divided, though: the stem, which takes the undivided
  count, is built before the division and does not fit into memory.
\<close>

lemma int_truediv2_rounds:
  "int_truediv2 18014398509481986 = Inr 9007199254740992"
  by (simp add: int_truediv2_def round53_def bit_length.simps)




end
